theory Spec2Isabelle
  imports Complex_Main "HOL-Library.Word"
begin

section \<open>The pipelining node (tpie/pipelining/node.h)\<close>

subsection \<open>Scalar types, enumerations and exceptions\<close>

text \<open>
  \<^verbatim>\<open>stream_size_type\<close> is an unsigned 64-bit counter; the subtraction in
  \<^verbatim>\<open>node::step\<close> is word arithmetic. \<^verbatim>\<open>memory_size_type\<close> only ever
  holds byte counts that are compared and copied, never computed with in the header, and is a
  natural number here. The two \<^verbatim>\<open>double\<close> fields (memory fraction, datastructure
  priority) are rationals. \<^verbatim>\<open>priority_type\<close> is an enumeration of an absent header
  and is kept as its ordinal.
\<close>

type_synonym stream_size_type = "64 word"
type_synonym memory_size_type = nat
type_synonym priority_type = nat

datatype PLOT = PLOT_SIMPLIFIED_HIDE | PLOT_BUFFERED

datatype STATE =
    STATE_FRESH
  | STATE_IN_PREPARE
  | STATE_AFTER_PREPARE
  | STATE_IN_PROPAGATE
  | STATE_AFTER_PROPAGATE
  | STATE_IN_BEGIN
  | STATE_AFTER_BEGIN
  | STATE_IN_END
  | STATE_AFTER_END

text \<open>
  Everything that leaves a member function other than by returning: the exceptions thrown in
  the header, \<^verbatim>\<open>boost::bad_any_cast\<close>, and a failed \<^verbatim>\<open>assert\<close>.
\<close>

datatype exception =
    not_initiator_node
  | invalid_argument_exception string
  | tpie_exception string
  | bad_any_cast
  | assertion_failed
  | insufficient_memory

subsection \<open>\<^verbatim>\<open>boost::any\<close>\<close>

text \<open>
  A \<^verbatim>\<open>boost::any\<close> is either empty or holds a value together with the
  \<^verbatim>\<open>type_info\<close> of its static type; \<^verbatim>\<open>any_cast<T>\<close> succeeds exactly
  when the held type is \<^verbatim>\<open>T\<close>. Types are identified by their
  \<^verbatim>\<open>typeid(T).name()\<close>.
\<close>

type_synonym type_info = string

datatype 'v any = Empty_any | Any type_info 'v

fun any_type :: "'v any \<Rightarrow> type_info" where
  "any_type Empty_any = ''void''"
| "any_type (Any t v) = t"

fun any_cast :: "type_info \<Rightarrow> 'v any \<Rightarrow> exception + 'v" where
  "any_cast T Empty_any = Inl bad_any_cast"
| "any_cast T (Any t v) = (if t = T then Inr v else Inl bad_any_cast)"

definition bad_any_cast_what :: string where
  "bad_any_cast_what = ''boost::bad_any_cast: failed conversion using boost::any_cast''"

subsection \<open>\<^verbatim>\<open>std::map\<close>\<close>

text \<open>
  \<^verbatim>\<open>count\<close> is a pure probe; \<^verbatim>\<open>operator[]\<close> inserts a default-constructed
  value when the key is missing and therefore returns the map as well.
\<close>

definition map_count :: "('k \<rightharpoonup> 'a) \<Rightarrow> 'k \<Rightarrow> nat" where
  "map_count m k = (case m k of None \<Rightarrow> 0 | Some _ \<Rightarrow> 1)"

definition map_index :: "'a \<Rightarrow> ('k \<rightharpoonup> 'a) \<Rightarrow> 'k \<Rightarrow> 'a \<times> ('k \<rightharpoonup> 'a)" where
  "map_index dflt m k = (case m k of None \<Rightarrow> (dflt, m(k \<mapsto> dflt)) | Some v \<Rightarrow> (v, m))"

subsection \<open>The data members\<close>

record node_parameters =
  minimumMemory :: memory_size_type
  maximumMemory :: memory_size_type
  memoryFraction :: rat
  name :: string
  namePriority :: priority_type
  stepsTotal :: stream_size_type

record datastructure_info_t =
  min_memory :: memory_size_type
  max_memory :: memory_size_type
  priority :: rat

record node_token =
  token_id :: nat
  token_map :: nat

text \<open>
  The node object. \<^verbatim>\<open>m_pi\<close> is a non-owning pointer: the indicator it points to lives
  in the \<open>runtime\<close> below, next to the log stream.
\<close>

record 'v node =
  token :: node_token
  m_parameters :: node_parameters
  m_availableMemory :: memory_size_type
  m_values :: "string \<rightharpoonup> ('v any \<times> bool)"
  m_datastructures :: "string \<rightharpoonup> datastructure_info_t"
  m_flushPriority :: memory_size_type
  m_stepsLeft :: stream_size_type
  m_state :: STATE
  m_plotOptions :: "PLOT set"

datatype log_entry =
    Log_warning string
  | Step_overflow string stream_size_type

text \<open>
  What a member function can touch outside its node: the progress indicator behind
  \<^verbatim>\<open>m_pi\<close>, seen through the \<^verbatim>\<open>step\<close> calls it has received (the indicator
  itself is an external collaborator), and the lines written to the log.
\<close>

record runtime =
  pi_steps :: "stream_size_type list"
  log_lines :: "log_entry list"

subsection \<open>Accessors\<close>

definition get_minimum_memory :: "'v node \<Rightarrow> memory_size_type" where
  "get_minimum_memory n = minimumMemory (m_parameters n)"

definition get_maximum_memory :: "'v node \<Rightarrow> memory_size_type" where
  "get_maximum_memory n = maximumMemory (m_parameters n)"

definition get_available_memory :: "'v node \<Rightarrow> memory_size_type" where
  "get_available_memory n = m_availableMemory n"

definition get_memory_fraction :: "'v node \<Rightarrow> rat" where
  "get_memory_fraction n = memoryFraction (m_parameters n)"

definition get_id :: "'v node \<Rightarrow> nat" where
  "get_id n = token_id (token n)"

definition get_name_priority :: "'v node \<Rightarrow> priority_type" where
  "get_name_priority n = namePriority (m_parameters n)"

definition get_state :: "'v node \<Rightarrow> STATE" where
  "get_state n = m_state n"

definition set_state :: "STATE \<Rightarrow> 'v node \<Rightarrow> 'v node" where
  "set_state s n = n\<lparr>m_state := s\<rparr>"

subsection \<open>\<^verbatim>\<open>set_breadcrumb\<close>\<close>

definition set_breadcrumb :: "string \<Rightarrow> 'v node \<Rightarrow> 'v node" where
  "set_breadcrumb breadcrumb n =
     n\<lparr>m_parameters := (m_parameters n)\<lparr>name :=
         (if name (m_parameters n) = [] then breadcrumb
          else breadcrumb @ '' | '' @ name (m_parameters n))\<rparr>\<rparr>"

subsection \<open>\<^verbatim>\<open>go\<close> and its virtual dispatch\<close>

text \<open>
  The dynamic type of a node: the name \<^verbatim>\<open>typeid(*this).name()\<close> reports and the
  final overrider of \<^verbatim>\<open>go\<close>, if a subclass supplies one. \<open>node_go\<close> is the body in
  the base class; \<open>go\<close> is the virtual call.
\<close>

record 'v node_class =
  class_name :: string
  go_override :: "('v node \<times> runtime \<Rightarrow> (exception + unit) \<times> 'v node \<times> runtime) option"

definition node_go :: "'v node_class \<Rightarrow> 'v node \<times> runtime \<Rightarrow> (exception + unit) \<times> 'v node \<times> runtime" where
  "node_go cls = (\<lambda>(n, w).
     (Inl not_initiator_node, n,
      w\<lparr>log_lines := log_lines w @
         [Log_warning (''node subclass '' @ class_name cls @ '' is not an initiator node'')]\<rparr>))"

definition go :: "'v node_class \<Rightarrow> 'v node \<times> runtime \<Rightarrow> (exception + unit) \<times> 'v node \<times> runtime" where
  "go cls s = (case go_override cls of None \<Rightarrow> node_go cls s | Some f \<Rightarrow> f s)"

subsection \<open>\<^verbatim>\<open>step\<close>\<close>

text \<open>
  Modelled from the spec: \<^verbatim>\<open>step_overflow\<close> is declared in the header and defined
  elsewhere. The overflow handler reports one diagnostic (the node's name and what was left
  of the budget) and clamps the residual budget to zero.
\<close>

definition step_overflow :: "'v node \<times> runtime \<Rightarrow> 'v node \<times> runtime" where
  "step_overflow = (\<lambda>(n, w).
     (n\<lparr>m_stepsLeft := 0\<rparr>,
      w\<lparr>log_lines := log_lines w @ [Step_overflow (name (m_parameters n)) (m_stepsLeft n)]\<rparr>))"

definition pi_step :: "stream_size_type \<Rightarrow> runtime \<Rightarrow> runtime" where
  "pi_step steps w = w\<lparr>pi_steps := pi_steps w @ [steps]\<rparr>"

definition step :: "stream_size_type \<Rightarrow> 'v node \<times> runtime \<Rightarrow> exception + ('v node \<times> runtime)" where
  "step steps = (\<lambda>(n, w).
     if \<not> (get_state n = STATE_IN_END \<or>
            get_state n = STATE_IN_BEGIN \<or>
            get_state n = STATE_AFTER_BEGIN \<or>
            get_state n = STATE_IN_END)
     then Inl assertion_failed
     else
       let (n1, w1) =
             (if m_stepsLeft n < steps then step_overflow (n, w)
              else (n\<lparr>m_stepsLeft := m_stepsLeft n - steps\<rparr>, w))
       in Inr (n1, pi_step steps w1))"

subsection \<open>Forwarded values: \<^verbatim>\<open>add_forwarded_data\<close>, \<^verbatim>\<open>can_fetch\<close>, \<^verbatim>\<open>fetch\<close>\<close>

text \<open>
  Modelled from the spec: \<^verbatim>\<open>add_forwarded_data\<close> is declared in the header and
  defined elsewhere. If the node already holds \<open>(key, (_, true))\<close> and the incoming write
  has \<open>explicit = false\<close>, the incoming write is dropped; otherwise it overwrites the entry
  (the header's comment: data forwarded with \<open>explicitForward = false\<close> does not override
  data forwarded with \<open>explicitForward = true\<close>).
\<close>

definition holds_explicit :: "'v node \<Rightarrow> string \<Rightarrow> bool" where
  "holds_explicit n key = (case m_values n key of None \<Rightarrow> False | Some (old, e) \<Rightarrow> e)"

definition add_forwarded_data :: "string \<Rightarrow> 'v any \<Rightarrow> bool \<Rightarrow> 'v node \<Rightarrow> 'v node" where
  "add_forwarded_data key v explicitForward n =
     (if holds_explicit n key \<and> \<not> explicitForward then n
      else n\<lparr>m_values := (m_values n)(key \<mapsto> (v, explicitForward))\<rparr>)"

text \<open>A run of writes arriving at one node, oldest first.\<close>

fun add_all_forwarded :: "(string \<times> 'v any \<times> bool) list \<Rightarrow> 'v node \<Rightarrow> 'v node" where
  "add_all_forwarded [] n = n"
| "add_all_forwarded ((key, v, e) # ws) n = add_all_forwarded ws (add_forwarded_data key v e n)"

definition can_fetch :: "string \<Rightarrow> 'v node \<Rightarrow> bool" where
  "can_fetch key n = (map_count (m_values n) key \<noteq> 0)"

definition quoted :: "string \<Rightarrow> string" where
  "quoted s = [CHR 0x27] @ s @ [CHR 0x27]"

text \<open>
  \<^verbatim>\<open>fetch<T>\<close> is not a \<^verbatim>\<open>const\<close> member and reads through
  \<^verbatim>\<open>m_values[key]\<close>, so the model returns the node next to the result.
\<close>

definition fetch :: "type_info \<Rightarrow> string \<Rightarrow> 'v node \<Rightarrow> (exception + 'v) \<times> 'v node" where
  "fetch T key n =
     (if map_count (m_values n) key = 0
      then (Inl (invalid_argument_exception
                  (''Tried to fetch nonexistent key '' @ quoted key @ '' of type '' @ T)), n)
      else
        let (entry, vals1) = map_index (Empty_any, False) (m_values n) key in
        case any_cast T (fst entry) of
          Inr v \<Rightarrow> (Inr v, n\<lparr>m_values := vals1\<rparr>)
        | Inl m \<Rightarrow>
            let (entry2, vals2) = map_index (Empty_any, False) vals1 key in
            (Inl (invalid_argument_exception
                   (''Trying to fetch key '' @ quoted key @ '' of type '' @ T
                    @ '' but forwarded data was of type '' @ any_type (fst entry2)
                    @ ''. Message was: '' @ bad_any_cast_what)),
             n\<lparr>m_values := vals2\<rparr>))"

subsection \<open>The node map: owners and shared datastructures\<close>

text \<open>
  Modelled from the spec: \<^verbatim>\<open>bits::node_map\<close> and \<^verbatim>\<open>node_token\<close> live in
  an absent header. The map sends each token id to the node object that owns it (an address)
  and each registered datastructure name to its info and its opaque value.
\<close>

record 'v node_map =
  map_tokens :: "nat \<rightharpoonup> nat"
  map_datastructures :: "string \<rightharpoonup> (datastructure_info_t \<times> 'v any)"

text \<open>
  \<^verbatim>\<open>set_datastructure\<close> and \<^verbatim>\<open>get_datastructure<T>\<close>, on the map that
  \<^verbatim>\<open>get_node_map()\<close> returns. \<^verbatim>\<open>find\<close> does not insert.
\<close>

definition set_datastructure :: "string \<Rightarrow> type_info \<Rightarrow> 'v \<Rightarrow> 'v node_map \<Rightarrow> exception + 'v node_map" where
  "set_datastructure nm T datastructure M =
     (case map_datastructures M nm of
        None \<Rightarrow> Inl (tpie_exception ''attempted to set non-registered datastructure'')
      | Some (info, old) \<Rightarrow>
          Inr (M\<lparr>map_datastructures := (map_datastructures M)(nm \<mapsto> (info, Any T datastructure))\<rparr>))"

definition get_datastructure :: "type_info \<Rightarrow> string \<Rightarrow> 'v node_map \<Rightarrow> exception + 'v" where
  "get_datastructure T nm M =
     (case map_datastructures M nm of
        None \<Rightarrow> Inl (tpie_exception ''attempted to get non-registered datastructure'')
      | Some (info, held) \<Rightarrow> any_cast T held)"

text \<open>
  Modelled from the spec: the copy and the move constructor are declared in the header and
  defined elsewhere. The new object, at address \<open>this\<close>, takes over the members of
  \<open>other\<close>, its token among them, and the map entry of that token's id is pointed at the
  new owner.
\<close>

definition node_copy :: "nat \<Rightarrow> 'v node \<Rightarrow> 'v node_map \<Rightarrow> 'v node \<times> 'v node_map" where
  "node_copy this other M =
     (other, M\<lparr>map_tokens := (map_tokens M)(get_id other \<mapsto> this)\<rparr>)"

definition node_move :: "nat \<Rightarrow> 'v node \<Rightarrow> 'v node_map \<Rightarrow> 'v node \<times> 'v node_map" where
  "node_move this other M =
     (other, M\<lparr>map_tokens := (map_tokens M)(get_id other \<mapsto> this)\<rparr>)"

subsection \<open>The memory runtime\<close>

text \<open>
  Modelled from the spec: \<^verbatim>\<open>bits::memory_runtime\<close> is a friend class of the node
  whose code is absent. A memory consumer is a triple of a minimum, a maximum and a weight;
  each node contributes its own (its memory fraction is the weight), and each registered
  datastructure contributes one (its priority is the weight). Consumers are listed in
  ascending order of token id, then of datastructure name.
\<close>

record consumer =
  consumer_min :: nat
  consumer_max :: nat
  consumer_weight :: rat

definition node_consumer :: "'v node \<Rightarrow> consumer" where
  "node_consumer n =
     \<lparr>consumer_min = get_minimum_memory n, consumer_max = get_maximum_memory n,
      consumer_weight = get_memory_fraction n\<rparr>"

definition datastructure_consumer :: "datastructure_info_t \<Rightarrow> consumer" where
  "datastructure_consumer d =
     \<lparr>consumer_min = min_memory d, consumer_max = max_memory d, consumer_weight = priority d\<rparr>"

definition memory_consumers :: "'v node list \<Rightarrow> datastructure_info_t list \<Rightarrow> consumer list" where
  "memory_consumers nodes dss = map node_consumer nodes @ map datastructure_consumer dss"

definition declared_minimum :: "'v node list \<Rightarrow> datastructure_info_t list \<Rightarrow> nat" where
  "declared_minimum nodes dss = sum_list (map consumer_min (memory_consumers nodes dss))"

text \<open>
  Modelled from the spec: a consumer paired with the amount it holds takes part in the
  redistribution while it is below its maximum and has a positive weight (a consumer of
  weight zero asks for no share).
\<close>

definition active :: "consumer \<times> nat \<Rightarrow> bool" where
  "active = (\<lambda>(c, a). a < consumer_max c \<and> 0 < consumer_weight c)"

definition total_assigned :: "(consumer \<times> nat) list \<Rightarrow> nat" where
  "total_assigned xs = sum_list (map snd xs)"

definition active_weight :: "(consumer \<times> nat) list \<Rightarrow> rat" where
  "active_weight xs = sum_list (map (\<lambda>(c, a). consumer_weight c) (filter active xs))"

text \<open>
  Modelled from the spec: the proportional share of a remainder \<open>R\<close> for a consumer among
  consumers of total weight \<open>W\<close>, rounded down to whole bytes.
\<close>

definition share :: "nat \<Rightarrow> rat \<Rightarrow> consumer \<Rightarrow> nat" where
  "share R W c = nat \<lfloor>of_nat R * consumer_weight c / W\<rfloor>"

text \<open>
  Modelled from the spec: one round of redistribution. The consumers are visited in their
  order; each active one receives its share of what is still undistributed, clamped to its
  maximum, and what it could not take stays in the remainder for the consumers after it.
\<close>

fun pass :: "nat \<Rightarrow> rat \<Rightarrow> (consumer \<times> nat) list \<Rightarrow> (consumer \<times> nat) list" where
  "pass R W [] = []"
| "pass R W ((c, a) # xs) =
     (if active (c, a)
      then let g = min (consumer_max c - a) (share R W c)
           in (c, a + g) # pass (R - g) (W - consumer_weight c) xs
      else (c, a) # pass R W xs)"

definition redistribute :: "nat \<Rightarrow> (consumer \<times> nat) list \<Rightarrow> (consumer \<times> nat) list" where
  "redistribute M xs = pass (M - total_assigned xs) (active_weight xs) xs"

text \<open>
  Modelled from the spec: the rounds are iterated to a fixed point, that is, until the budget
  is used up or a round changes no amount.
\<close>

function distribute :: "nat \<Rightarrow> (consumer \<times> nat) list \<Rightarrow> (consumer \<times> nat) list" where
  "distribute M xs =
     (if total_assigned xs < M \<and> map snd (redistribute M xs) \<noteq> map snd xs
      then distribute M (redistribute M xs) else xs)"
  by pat_completeness auto
termination
proof (relation "measure (\<lambda>(M, xs). M - total_assigned xs)")
  show "wf (measure (\<lambda>(M, xs). M - total_assigned xs))" by simp
next
  fix M :: nat and xs :: "(consumer \<times> nat) list"
  assume a: "total_assigned xs < M \<and> map snd (redistribute M xs) \<noteq> map snd xs"
  have grows: "list_all2 (\<lambda>x y. snd x \<le> snd y) ys (pass R W ys)" for R W ys
    by (induction R W ys rule: pass.induct) (auto simp: Let_def)
  have strict: "sum_list as < sum_list bs"
    if "list_all2 (\<le>) as bs" and "as \<noteq> bs" for as bs :: "nat list"
    using that
  proof (induction rule: list_all2_induct)
    case Nil
    then show ?case by simp
  next
    case (Cons x xs y ys)
    have le: "sum_list xs \<le> sum_list ys"
      using Cons.hyps(2) by (induction rule: list_all2_induct) auto
    show ?case
    proof (cases "x = y")
      case True
      with Cons show ?thesis by simp
    next
      case False
      with Cons.hyps(1) le show ?thesis by simp
    qed
  qed
  have "list_all2 (\<le>) (map snd xs) (map snd (redistribute M xs))"
    using grows [of xs] by (simp add: redistribute_def list_all2_map1 list_all2_map2)
  with a have "total_assigned xs < total_assigned (redistribute M xs)"
    unfolding total_assigned_def by (intro strict) auto
  moreover from a have "total_assigned xs < M" by simp
  ultimately show "((M, redistribute M xs), (M, xs)) \<in> measure (\<lambda>(M, xs). M - total_assigned xs)"
    by simp
qed

declare distribute.simps [simp del]

text \<open>
  Modelled from the spec: all consumers start at their minimum; if the minima together
  exceed the budget \<open>M\<close> the assignment fails with \<open>insufficient_memory\<close>; otherwise the
  remainder is distributed.
\<close>

definition assign_memory :: "nat \<Rightarrow> consumer list \<Rightarrow> exception + nat list" where
  "assign_memory M cs =
     (if M < sum_list (map consumer_min cs) then Inl insufficient_memory
      else Inr (map snd (distribute M (map (\<lambda>c. (c, consumer_min c)) cs))))"

text \<open>
  Modelled from the spec: \<^verbatim>\<open>set_available_memory\<close> is declared in the header and
  defined elsewhere; it records the amount the memory runtime assigned to the node.
\<close>

definition set_available_memory :: "memory_size_type \<Rightarrow> 'v node \<Rightarrow> 'v node" where
  "set_available_memory availableMemory n = n\<lparr>m_availableMemory := availableMemory\<rparr>"

text \<open>
  Modelled from the spec: memory assignment for a phase with budget \<open>M\<close>. The resulting
  amounts are handed to the nodes through \<^verbatim>\<open>set_available_memory\<close>; those of the
  datastructures are returned next to the nodes.
\<close>

definition assign_phase_memory ::
  "nat \<Rightarrow> 'v node list \<Rightarrow> datastructure_info_t list \<Rightarrow> exception + ('v node list \<times> nat list)" where
  "assign_phase_memory M nodes dss =
     (case assign_memory M (memory_consumers nodes dss) of
        Inl e \<Rightarrow> Inl e
      | Inr amounts \<Rightarrow>
          Inr (map2 set_available_memory (take (length nodes) amounts) nodes,
               drop (length nodes) amounts))"

text \<open>
  How an amount may move during the distribution: the consumer is the same, the amount does
  not shrink, and an amount that was at most the maximum stays so.
\<close>

definition raised :: "consumer \<times> nat \<Rightarrow> consumer \<times> nat \<Rightarrow> bool" where
  "raised x y =
     (fst y = fst x \<and> snd x \<le> snd y \<and>
      (snd x \<le> consumer_max (fst x) \<longrightarrow> snd y \<le> consumer_max (fst x)))"

subsection \<open>A node and a runtime to evaluate on\<close>

definition sample_parameters :: node_parameters where
  "sample_parameters =
     \<lparr>minimumMemory = 1, maximumMemory = 10, memoryFraction = 1,
      name = ''sorter'', namePriority = 0, stepsTotal = 10\<rparr>"

definition sample_node :: "nat node" where
  "sample_node =
     \<lparr>token = \<lparr>token_id = 7, token_map = 0\<rparr>,
      m_parameters = sample_parameters,
      m_availableMemory = 0,
      m_values = Map.empty,
      m_datastructures = Map.empty,
      m_flushPriority = 0,
      m_stepsLeft = 10,
      m_state = STATE_FRESH,
      m_plotOptions = {}\<rparr>"

definition idle_runtime :: runtime where
  "idle_runtime = \<lparr>pi_steps = [], log_lines = []\<rparr>"

definition forwarding_node :: "nat node" where
  "forwarding_node =
     sample_node\<lparr>m_values := [''n_items'' \<mapsto> (Any ''unsigned long'' 100, True),
                              ''hint'' \<mapsto> (Any ''int'' 3, False)]\<rparr>"

definition sample_map :: "nat node_map" where
  "sample_map =
     \<lparr>map_tokens = [7 \<mapsto> 1000, 8 \<mapsto> 2000],
      map_datastructures =
        [''buffer'' \<mapsto> (\<lparr>min_memory = 0, max_memory = 64, priority = 1\<rparr>, Empty_any)]\<rparr>"

definition source_class :: "nat node_class" where
  "source_class = \<lparr>class_name = ''source_t'', go_override = Some (\<lambda>(n, w). (Inr (), n, w))\<rparr>"

definition sink_class :: "nat node_class" where
  "sink_class = \<lparr>class_name = ''sink_t'', go_override = None\<rparr>"

definition inverted_node :: "nat node" where
  "inverted_node =
     sample_node\<lparr>m_parameters := sample_parameters\<lparr>minimumMemory := 5, maximumMemory := 3\<rparr>\<rparr>"

definition light_node :: "nat node" where
  "light_node = sample_node"

definition heavy_node :: "nat node" where
  "heavy_node =
     sample_node\<lparr>token := \<lparr>token_id = 8, token_map = 0\<rparr>,
                 m_parameters := sample_parameters\<lparr>memoryFraction := 3\<rparr>\<rparr>"

section \<open>Properties\<close>

text \<open>
  C9: \<^verbatim>\<open>set_breadcrumb(s)\<close> makes the name \<open>s\<close> when the name was empty and
  \<open>s @ '' | '' @ old\<close> otherwise; the other parameters (the name priority among them) and
  every other member of the node stay as they were.
\<close>

theorem set_breadcrumb_name:
  "name (m_parameters (set_breadcrumb s n)) =
     (if name (m_parameters n) = [] then s else s @ '' | '' @ name (m_parameters n))
   \<and> minimumMemory (m_parameters (set_breadcrumb s n)) = minimumMemory (m_parameters n)
   \<and> maximumMemory (m_parameters (set_breadcrumb s n)) = maximumMemory (m_parameters n)
   \<and> memoryFraction (m_parameters (set_breadcrumb s n)) = memoryFraction (m_parameters n)
   \<and> namePriority (m_parameters (set_breadcrumb s n)) = namePriority (m_parameters n)
   \<and> stepsTotal (m_parameters (set_breadcrumb s n)) = stepsTotal (m_parameters n)
   \<and> set_breadcrumb s n = n\<lparr>m_parameters := m_parameters (set_breadcrumb s n)\<rparr>"
  by (simp add: set_breadcrumb_def)

theorem set_breadcrumb_name_witness:
  "name (m_parameters (set_breadcrumb ''phase'' sample_node)) = ''phase | sorter''
   \<and> namePriority (m_parameters (set_breadcrumb ''phase'' sample_node)) = 0"
  using set_breadcrumb_name [of "''phase''" sample_node]
  by (simp add: sample_node_def sample_parameters_def)

subsection \<open>The step budget\<close>

lemma step_in_budget:
  assumes "get_state n = STATE_IN_BEGIN \<or> get_state n = STATE_AFTER_BEGIN \<or> get_state n = STATE_IN_END"
    and "k \<le> m_stepsLeft n"
  shows "step k (n, w) = Inr (n\<lparr>m_stepsLeft := m_stepsLeft n - k\<rparr>, w\<lparr>pi_steps := pi_steps w @ [k]\<rparr>)"
  using assms by (auto simp: step_def pi_step_def)

lemma step_over_budget:
  assumes "get_state n = STATE_IN_BEGIN \<or> get_state n = STATE_AFTER_BEGIN \<or> get_state n = STATE_IN_END"
    and "m_stepsLeft n < k"
  shows "step k (n, w) =
     Inr (n\<lparr>m_stepsLeft := 0\<rparr>,
          w\<lparr>pi_steps := pi_steps w @ [k],
            log_lines := log_lines w @ [Step_overflow (name (m_parameters n)) (m_stepsLeft n)]\<rparr>)"
  using assms by (auto simp: step_def pi_step_def step_overflow_def)

text \<open>
  C2, for a node in one of the states that \<^verbatim>\<open>step\<close> asserts
  (\<open>STATE_IN_BEGIN\<close>, \<open>STATE_AFTER_BEGIN\<close>, \<open>STATE_IN_END\<close>): \<^verbatim>\<open>step(k)\<close> always
  returns and forwards \<open>k\<close> to the progress indicator. If \<open>k\<close> is within the residual
  budget, the budget goes down by exactly \<open>k\<close> (no wrap-around: the unsigned values add up)
  and nothing is logged. If \<open>k\<close> exceeds it, the overflow handler logs one diagnostic and the
  budget is clamped to zero. Nothing else in the node changes.
\<close>

theorem step_charges_budget:
  assumes "get_state n = STATE_IN_BEGIN \<or> get_state n = STATE_AFTER_BEGIN \<or> get_state n = STATE_IN_END"
  shows "\<exists>n' w'. step k (n, w) = Inr (n', w')
     \<and> pi_steps w' = pi_steps w @ [k]
     \<and> (k \<le> m_stepsLeft n \<longrightarrow>
          m_stepsLeft n' = m_stepsLeft n - k
          \<and> unat (m_stepsLeft n') + unat k = unat (m_stepsLeft n)
          \<and> log_lines w' = log_lines w)
     \<and> (m_stepsLeft n < k \<longrightarrow>
          m_stepsLeft n' = 0
          \<and> log_lines w' = log_lines w @ [Step_overflow (name (m_parameters n)) (m_stepsLeft n)])
     \<and> n' = n\<lparr>m_stepsLeft := m_stepsLeft n'\<rparr>"
proof (cases "k \<le> m_stepsLeft n")
  case True
  then have "unat (m_stepsLeft n - k) + unat k = unat (m_stepsLeft n)"
    by (simp add: unat_sub word_le_nat_alt)
  with True step_in_budget [OF assms True, of w] show ?thesis
    by (simp add: not_less [symmetric])
next
  case False
  then have over: "m_stepsLeft n < k" by simp
  with step_over_budget [OF assms over, of w] show ?thesis
    by simp
qed

theorem step_charges_budget_witness:
  "(\<exists>n' w'. step 4 (set_state STATE_IN_BEGIN sample_node, idle_runtime) = Inr (n', w')
      \<and> m_stepsLeft n' = 6 \<and> pi_steps w' = [4] \<and> log_lines w' = [])
   \<and> (\<exists>n' w'. step 15 (set_state STATE_IN_END sample_node, idle_runtime) = Inr (n', w')
      \<and> m_stepsLeft n' = 0 \<and> pi_steps w' = [15]
      \<and> log_lines w' = [Step_overflow ''sorter'' 10])"
  using step_charges_budget [of "set_state STATE_IN_BEGIN sample_node" 4 idle_runtime]
    step_charges_budget [of "set_state STATE_IN_END sample_node" 15 idle_runtime]
  by (auto simp: set_state_def get_state_def sample_node_def sample_parameters_def idle_runtime_def)

text \<open>
  The claim as stated, for every node, fails: on a node in \<open>STATE_FRESH\<close> the call does
  not continue, it stops at the assertion before the budget or the indicator is touched.
\<close>

theorem step_on_fresh_node_aborts:
  "get_state sample_node = STATE_FRESH
   \<and> step 4 (sample_node, idle_runtime) = Inl assertion_failed"
  by (simp add: step_def get_state_def sample_node_def)

text \<open>
  C10: \<^verbatim>\<open>step\<close> asserts, before it charges the budget, that the node is in one of
  \<open>STATE_IN_BEGIN\<close>, \<open>STATE_AFTER_BEGIN\<close>, \<open>STATE_IN_END\<close>. The assertion fails exactly
  in the other states; in the three states a node is in while its begin, go and end hooks
  run, the failing branch is not taken.
\<close>

theorem step_asserts_state:
  "(step k (n, w) = Inl assertion_failed) =
     (get_state n \<noteq> STATE_IN_BEGIN \<and> get_state n \<noteq> STATE_AFTER_BEGIN \<and> get_state n \<noteq> STATE_IN_END)"
  by (auto simp: step_def split: prod.splits)

theorem step_asserts_state_witness:
  "step 1 (sample_node, idle_runtime) = Inl assertion_failed
   \<and> step 1 (set_state STATE_IN_PREPARE sample_node, idle_runtime) = Inl assertion_failed
   \<and> step 1 (set_state STATE_IN_PROPAGATE sample_node, idle_runtime) = Inl assertion_failed
   \<and> step 1 (set_state STATE_IN_BEGIN sample_node, idle_runtime) \<noteq> Inl assertion_failed
   \<and> step 1 (set_state STATE_AFTER_BEGIN sample_node, idle_runtime) \<noteq> Inl assertion_failed
   \<and> step 1 (set_state STATE_IN_END sample_node, idle_runtime) \<noteq> Inl assertion_failed"
  using step_asserts_state [of 1 sample_node idle_runtime]
    step_asserts_state [of 1 "set_state STATE_IN_PREPARE sample_node" idle_runtime]
    step_asserts_state [of 1 "set_state STATE_IN_PROPAGATE sample_node" idle_runtime]
    step_asserts_state [of 1 "set_state STATE_IN_BEGIN sample_node" idle_runtime]
    step_asserts_state [of 1 "set_state STATE_AFTER_BEGIN sample_node" idle_runtime]
    step_asserts_state [of 1 "set_state STATE_IN_END sample_node" idle_runtime]
  by (simp add: set_state_def get_state_def sample_node_def)

subsection \<open>The lifecycle state\<close>

text \<open>
  C4, as the header has it: \<^verbatim>\<open>set_state(s)\<close> checks nothing. From every state it
  makes \<open>s\<close> the state of the node and leaves the rest of the node alone; it raises no
  error. Entering \<open>STATE_IN_BEGIN\<close> from \<open>STATE_AFTER_PROPAGATE\<close> is one instance.
\<close>

theorem set_state_unchecked:
  "get_state (set_state s n) = s \<and> set_state s n = n\<lparr>m_state := s\<rparr>"
  by (simp add: set_state_def get_state_def)

theorem set_state_unchecked_witness:
  "get_state (set_state STATE_IN_BEGIN (set_state STATE_AFTER_PROPAGATE sample_node)) = STATE_IN_BEGIN"
  using set_state_unchecked [of STATE_IN_BEGIN "set_state STATE_AFTER_PROPAGATE sample_node"]
  by blast

text \<open>
  The claim as stated fails: a node in \<open>STATE_FRESH\<close> is moved into \<open>STATE_IN_BEGIN\<close>.
\<close>

theorem set_state_in_begin_from_fresh:
  "get_state sample_node = STATE_FRESH
   \<and> get_state (set_state STATE_IN_BEGIN sample_node) = STATE_IN_BEGIN"
  by (simp add: set_state_def get_state_def sample_node_def)

subsection \<open>\<^verbatim>\<open>go\<close>\<close>

text \<open>
  C7: on a node whose class does not override \<^verbatim>\<open>go\<close>, the call raises
  \<open>not_initiator_node\<close> (after logging a warning that names the class, and without touching
  the node); hence a call of \<^verbatim>\<open>go\<close> that returns normally was made on a node whose
  class overrides it.
\<close>

theorem go_default_throws:
  "(go_override cls = None \<longrightarrow>
      fst (go cls (n, w)) = Inl not_initiator_node
      \<and> fst (snd (go cls (n, w))) = n
      \<and> log_lines (snd (snd (go cls (n, w)))) = log_lines w @
          [Log_warning (''node subclass '' @ class_name cls @ '' is not an initiator node'')])
   \<and> (fst (go cls (n, w)) = Inr () \<longrightarrow> go_override cls \<noteq> None)"
  by (auto simp: go_def node_go_def split: option.splits)

theorem go_default_throws_witness:
  "go_override sink_class = None
   \<and> fst (go sink_class (sample_node, idle_runtime)) = Inl not_initiator_node
   \<and> log_lines (snd (snd (go sink_class (sample_node, idle_runtime)))) =
       [Log_warning ''node subclass sink_t is not an initiator node'']
   \<and> fst (go source_class (sample_node, idle_runtime)) = Inr ()
   \<and> go_override source_class \<noteq> None"
  using go_default_throws [of sink_class sample_node idle_runtime]
    go_default_throws [of source_class sample_node idle_runtime]
  by (simp add: sink_class_def source_class_def idle_runtime_def go_def)

subsection \<open>Forwarded values\<close>

lemma add_forwarded_data_other_key:
  "key' \<noteq> key \<Longrightarrow> m_values (add_forwarded_data key v e n) key' = m_values n key'"
  by (simp add: add_forwarded_data_def)

lemma add_all_forwarded_sticky:
  "m_values n key = Some (v0, True) \<Longrightarrow>
   \<forall>w \<in> set ws. fst w = key \<longrightarrow> \<not> snd (snd w) \<Longrightarrow>
   m_values (add_all_forwarded ws n) key = Some (v0, True)"
proof (induction ws arbitrary: n)
  case Nil
  then show ?case by simp
next
  case (Cons w ws)
  obtain k v e where w: "w = (k, v, e)" by (cases w)
  have "m_values (add_forwarded_data k v e n) key = Some (v0, True)"
  proof (cases "k = key")
    case True
    with Cons.prems w have "\<not> e" by simp
    with True Cons.prems(1) show ?thesis
      by (simp add: add_forwarded_data_def holds_explicit_def)
  next
    case False
    with Cons.prems(1) show ?thesis by (simp add: add_forwarded_data_other_key)
  qed
  with Cons.IH [of "add_forwarded_data k v e n"] Cons.prems(2) w show ?case by simp
qed

text \<open>
  C3: once a node holds a value for a key with \<open>explicit = true\<close>, a write of that key
  with \<open>explicit = false\<close> leaves the node as it is, and so does any run of later writes
  in which every write of that key has \<open>explicit = false\<close>; every other write (one with
  \<open>explicit = true\<close>, or one onto a key whose entry is absent or not explicit) overwrites
  the entry.
\<close>

theorem explicit_forward_sticky:
  "(m_values n key = Some (v0, True) \<longrightarrow>
      add_forwarded_data key v False n = n
      \<and> m_values (add_forwarded_data key v False n) key = Some (v0, True))
   \<and> (m_values n key = Some (v0, True) \<and> (\<forall>w \<in> set ws. fst w = key \<longrightarrow> \<not> snd (snd w)) \<longrightarrow>
      m_values (add_all_forwarded ws n) key = Some (v0, True))
   \<and> (e \<or> \<not> holds_explicit n key \<longrightarrow>
      add_forwarded_data key v e n = n\<lparr>m_values := (m_values n)(key \<mapsto> (v, e))\<rparr>
      \<and> m_values (add_forwarded_data key v e n) key = Some (v, e))
   \<and> holds_explicit n key = (\<exists>old. m_values n key = Some (old, True))"
  using add_all_forwarded_sticky [of n key v0 ws]
  by (auto simp: add_forwarded_data_def holds_explicit_def split: option.splits)

theorem explicit_forward_sticky_witness:
  "m_values forwarding_node ''n_items'' = Some (Any ''unsigned long'' 100, True)
   \<and> add_forwarded_data ''n_items'' (Any ''unsigned long'' 50) False forwarding_node = forwarding_node
   \<and> m_values (add_all_forwarded
        [(''n_items'', Any ''unsigned long'' 50, False), (''hint'', Any ''int'' 4, True),
         (''n_items'', Any ''unsigned long'' 20, False)] forwarding_node) ''n_items''
       = Some (Any ''unsigned long'' 100, True)
   \<and> m_values (add_forwarded_data ''n_items'' (Any ''unsigned long'' 50) True forwarding_node) ''n_items''
       = Some (Any ''unsigned long'' 50, True)
   \<and> \<not> holds_explicit forwarding_node ''hint''
   \<and> m_values (add_forwarded_data ''hint'' (Any ''int'' 9) False forwarding_node) ''hint''
       = Some (Any ''int'' 9, False)"
  using explicit_forward_sticky [of forwarding_node "''n_items''" "Any ''unsigned long'' 100"
      "Any ''unsigned long'' 50"
      "[(''n_items'', Any ''unsigned long'' 50, False), (''hint'', Any ''int'' 4, True),
        (''n_items'', Any ''unsigned long'' 20, False)]" True]
    explicit_forward_sticky [of forwarding_node "''hint''" "Any ''int'' 3" "Any ''int'' 9" "[]" False]
  by (simp add: forwarding_node_def holds_explicit_def add_forwarded_data_def)

text \<open>
  C5: \<^verbatim>\<open>fetch<T>(key)\<close> returns the stored value when the key has an entry of type
  \<open>T\<close>; it throws \<open>invalid_argument_exception\<close> when the key has no entry, and (with the
  message that names both types) when the entry holds another type. In every case, the two
  errors included, the node and its map of forwarded values are as before.
\<close>

theorem fetch_typed:
  "(m_values n key = Some (Any T v, e) \<longrightarrow> fetch T key n = (Inr v, n))
   \<and> (m_values n key = None \<longrightarrow>
        \<not> can_fetch key n
        \<and> fetch T key n =
            (Inl (invalid_argument_exception
                   (''Tried to fetch nonexistent key '' @ quoted key @ '' of type '' @ T)), n))
   \<and> (m_values n key = Some (held, e) \<and> any_type held \<noteq> T \<longrightarrow>
        fetch T key n =
          (Inl (invalid_argument_exception
                 (''Trying to fetch key '' @ quoted key @ '' of type '' @ T
                  @ '' but forwarded data was of type '' @ any_type held
                  @ ''. Message was: '' @ bad_any_cast_what)), n))
   \<and> snd (fetch T key n) = n"
  by (cases "m_values n key"; cases held)
     (auto simp: fetch_def can_fetch_def map_count_def map_index_def
           split: option.splits prod.splits sum.splits any.splits)

theorem fetch_typed_witness:
  "fetch ''unsigned long'' ''n_items'' forwarding_node = (Inr 100, forwarding_node)
   \<and> \<not> can_fetch ''missing'' forwarding_node
   \<and> fetch ''int'' ''missing'' forwarding_node =
       (Inl (invalid_argument_exception
              (''Tried to fetch nonexistent key '' @ quoted ''missing'' @ '' of type int'')),
        forwarding_node)
   \<and> fetch ''double'' ''hint'' forwarding_node =
       (Inl (invalid_argument_exception
              (''Trying to fetch key '' @ quoted ''hint''
               @ '' of type double but forwarded data was of type int. Message was: ''
               @ bad_any_cast_what)),
        forwarding_node)"
  using fetch_typed [of forwarding_node "''n_items''" "''unsigned long''" 100 True Empty_any]
    fetch_typed [of forwarding_node "''missing''" "''int''" 0 True Empty_any]
    fetch_typed [of forwarding_node "''hint''" "''double''" 0 False "Any ''int'' 3"]
  by (simp add: forwarding_node_def)

subsection \<open>Shared datastructures\<close>

text \<open>
  C6: on a name that is not registered in the node map, \<^verbatim>\<open>set_datastructure\<close> and
  \<^verbatim>\<open>get_datastructure<T>\<close> both throw. On a registered name,
  \<^verbatim>\<open>set_datastructure\<close> with a value \<open>v\<close> of type \<open>T\<close> succeeds, after which
  \<^verbatim>\<open>get_datastructure<T>\<close> returns \<open>v\<close> and \<^verbatim>\<open>get_datastructure<T'>\<close> for any
  other type throws \<open>bad_any_cast\<close>; the other names and the owners are untouched. In
  general \<^verbatim>\<open>get_datastructure<T>\<close> throws \<open>bad_any_cast\<close> whenever the stored type
  is not \<open>T\<close>.
\<close>

theorem datastructure_set_get:
  "(map_datastructures M nm = None \<longrightarrow>
      set_datastructure nm T v M = Inl (tpie_exception ''attempted to set non-registered datastructure'')
      \<and> get_datastructure T nm M = Inl (tpie_exception ''attempted to get non-registered datastructure''))
   \<and> (map_datastructures M nm \<noteq> None \<longrightarrow>
      (\<exists>M'. set_datastructure nm T v M = Inr M'
         \<and> get_datastructure T nm M' = Inr v
         \<and> (\<forall>T'. T' \<noteq> T \<longrightarrow> get_datastructure T' nm M' = Inl bad_any_cast)
         \<and> (\<forall>nm'. nm' \<noteq> nm \<longrightarrow> map_datastructures M' nm' = map_datastructures M nm')
         \<and> map_tokens M' = map_tokens M))
   \<and> (map_datastructures M nm = Some (info, held) \<and> any_type held \<noteq> T \<longrightarrow>
      get_datastructure T nm M = Inl bad_any_cast)"
  by (cases held) (auto simp: set_datastructure_def get_datastructure_def split: option.splits)

theorem datastructure_set_get_witness:
  "set_datastructure ''queue'' ''int'' 5 sample_map =
      Inl (tpie_exception ''attempted to set non-registered datastructure'')
   \<and> get_datastructure ''int'' ''queue'' sample_map =
      Inl (tpie_exception ''attempted to get non-registered datastructure'')
   \<and> (\<exists>M'. set_datastructure ''buffer'' ''int'' 5 sample_map = Inr M'
        \<and> get_datastructure ''int'' ''buffer'' M' = Inr 5
        \<and> get_datastructure ''double'' ''buffer'' M' = Inl bad_any_cast)
   \<and> get_datastructure ''int'' ''buffer'' sample_map = Inl bad_any_cast"
  using datastructure_set_get [of sample_map "''queue''" "''int''" 5
      "\<lparr>min_memory = 0, max_memory = 64, priority = 1\<rparr>" Empty_any]
    datastructure_set_get [of sample_map "''buffer''" "''int''" 5
      "\<lparr>min_memory = 0, max_memory = 64, priority = 1\<rparr>" Empty_any]
  by (auto simp: sample_map_def)

subsection \<open>Copying and moving a node\<close>

text \<open>
  C8: the copy of a node, and likewise the node it is moved into, has the token (so the id)
  of the original; afterwards the node map sends that id to the new owner, and every other
  id to the owner it had; the shared datastructures are untouched.
\<close>

theorem copy_preserves_token:
  "get_id (fst (node_copy this other M)) = get_id other
   \<and> token (fst (node_copy this other M)) = token other
   \<and> map_tokens (snd (node_copy this other M)) (get_id other) = Some this
   \<and> (\<forall>i. i \<noteq> get_id other \<longrightarrow>
        map_tokens (snd (node_copy this other M)) i = map_tokens M i)
   \<and> map_datastructures (snd (node_copy this other M)) = map_datastructures M
   \<and> node_move this other M = node_copy this other M"
  by (simp add: node_copy_def node_move_def)

theorem copy_preserves_token_witness:
  "get_id (fst (node_copy 3000 sample_node sample_map)) = 7
   \<and> map_tokens sample_map 7 = Some 1000
   \<and> map_tokens (snd (node_copy 3000 sample_node sample_map)) 7 = Some 3000
   \<and> map_tokens (snd (node_copy 3000 sample_node sample_map)) 8 = Some 2000
   \<and> map_tokens (snd (node_move 3000 sample_node sample_map)) 8 = Some 2000"
  using copy_preserves_token [of 3000 sample_node sample_map]
  by (simp add: sample_map_def sample_node_def get_id_def)

subsection \<open>Memory assignment\<close>

lemma share_le:
  assumes "0 < consumer_weight c" and "consumer_weight c \<le> W"
  shows "share R W c \<le> R"
proof -
  from assms have W: "0 < W" by simp
  have "of_nat R * consumer_weight c \<le> of_nat R * W"
    using assms(2) by (simp add: mult_left_mono)
  with W have "of_nat R * consumer_weight c / W \<le> of_nat R"
    by (simp add: pos_divide_le_eq)
  then have "\<lfloor>of_nat R * consumer_weight c / W\<rfloor> \<le> int R"
    by (simp add: floor_le_iff) 
  then show ?thesis by (simp add: share_def)
qed

lemma active_weight_nonneg: "0 \<le> active_weight xs"
  unfolding active_weight_def
  by (induction xs) (auto simp: active_def)

lemma active_weight_Cons:
  "active_weight ((c, a) # xs) =
     (if active (c, a) then consumer_weight c + active_weight xs else active_weight xs)"
  by (simp add: active_weight_def)

lemma pass_total:
  "active_weight xs \<le> W \<Longrightarrow> total_assigned (pass R W xs) \<le> total_assigned xs + R"
proof (induction R W xs rule: pass.induct)
  case (1 R W)
  then show ?case by (simp add: total_assigned_def)
next
  case (2 R W c a xs)
  show ?case
  proof (cases "active (c, a)")
    case True
    define g where "g = min (consumer_max c - a) (share R W c)"
    from True have pos: "0 < consumer_weight c" by (simp add: active_def)
    from True "2.prems" have le: "consumer_weight c + active_weight xs \<le> W"
      by (simp add: active_weight_Cons)
    with active_weight_nonneg [of xs] have "consumer_weight c \<le> W" by simp
    with pos have "share R W c \<le> R" by (rule share_le)
    then have gR: "g \<le> R" by (simp add: g_def)
    from le have "active_weight xs \<le> W - consumer_weight c" by simp
    with "2.IH"(1) [OF True g_def] have
      "total_assigned (pass (R - g) (W - consumer_weight c) xs) \<le> total_assigned xs + (R - g)" .
    with gR True show ?thesis
      by (simp add: total_assigned_def g_def [symmetric] Let_def)
  next
    case False
    with "2.prems" have "active_weight xs \<le> W" by (simp add: active_weight_Cons)
    with "2.IH"(2) [OF False] False show ?thesis
      by (simp add: total_assigned_def)
  qed
qed

lemma redistribute_total:
  "total_assigned xs \<le> M \<Longrightarrow> total_assigned (redistribute M xs) \<le> M"
  using pass_total [of xs "active_weight xs" "M - total_assigned xs"]
  by (simp add: redistribute_def)

lemma raised_refl: "raised x x"
  by (simp add: raised_def)

lemma raised_trans: "raised x y \<Longrightarrow> raised y z \<Longrightarrow> raised x z"
  by (auto simp: raised_def)

lemma pass_raised: "list_all2 raised xs (pass R W xs)"
  by (induction R W xs rule: pass.induct) (auto simp: Let_def raised_def active_def)

lemma distribute_raised: "list_all2 raised xs (distribute M xs)"
proof (induction M xs rule: distribute.induct)
  case (1 M xs)
  show ?case
  proof (cases "total_assigned xs < M \<and> map snd (redistribute M xs) \<noteq> map snd xs")
    case True
    have "list_all2 raised xs (redistribute M xs)"
      by (simp add: redistribute_def pass_raised)
    moreover have "list_all2 raised (redistribute M xs) (distribute M (redistribute M xs))"
      using "1.IH" [OF True] .
    ultimately have "list_all2 raised xs (distribute M (redistribute M xs))"
      by (rule list_all2_trans [rotated 1]) (rule raised_trans)
    with True show ?thesis by (subst distribute.simps) simp
  next
    case False
    then have "distribute M xs = xs" by (subst distribute.simps) auto
    then show ?thesis by (simp add: list_all2_refl raised_refl)
  qed
qed

lemma distribute_total:
  "total_assigned xs \<le> M \<Longrightarrow> total_assigned (distribute M xs) \<le> M"
proof (induction M xs rule: distribute.induct)
  case (1 M xs)
  show ?case
  proof (cases "total_assigned xs < M \<and> map snd (redistribute M xs) \<noteq> map snd xs")
    case True
    from "1.prems" have "total_assigned (redistribute M xs) \<le> M" by (rule redistribute_total)
    with "1.IH" [OF True] have "total_assigned (distribute M (redistribute M xs)) \<le> M" .
    with True show ?thesis by (subst distribute.simps) simp
  next
    case False
    then have "distribute M xs = xs" by (subst distribute.simps) auto
    with "1.prems" show ?thesis by simp
  qed
qed

lemma assign_memory_insufficient:
  "M < sum_list (map consumer_min cs) \<Longrightarrow> assign_memory M cs = Inl insufficient_memory"
  by (simp add: assign_memory_def)

lemma assign_memory_sufficient:
  assumes "sum_list (map consumer_min cs) \<le> M"
  shows "\<exists>amounts. assign_memory M cs = Inr amounts
     \<and> length amounts = length cs
     \<and> sum_list amounts \<le> M
     \<and> (\<forall>i < length cs. consumer_min (cs ! i) \<le> amounts ! i
           \<and> (consumer_min (cs ! i) \<le> consumer_max (cs ! i) \<longrightarrow> amounts ! i \<le> consumer_max (cs ! i)))"
proof -
  define xs where "xs = map (\<lambda>c. (c, consumer_min c)) cs"
  define ys where "ys = distribute M xs"
  have eq: "assign_memory M cs = Inr (map snd ys)"
    using assms by (simp add: assign_memory_def xs_def ys_def)
  have w: "list_all2 raised xs ys"
    unfolding ys_def by (rule distribute_raised)
  then have len: "length ys = length cs"
    by (simp add: list_all2_lengthD [symmetric] xs_def)
  have "total_assigned xs = sum_list (map consumer_min cs)"
    by (simp add: total_assigned_def xs_def comp_def)
  with assms have "total_assigned ys \<le> M"
    unfolding ys_def by (intro distribute_total) simp
  then have total: "sum_list (map snd ys) \<le> M" by (simp add: total_assigned_def)
  have "consumer_min (cs ! i) \<le> snd (ys ! i)
     \<and> (consumer_min (cs ! i) \<le> consumer_max (cs ! i) \<longrightarrow> snd (ys ! i) \<le> consumer_max (cs ! i))"
    if "i < length cs" for i
  proof -
    from that have "i < length xs" by (simp add: xs_def)
    with w have "raised (xs ! i) (ys ! i)" by (rule list_all2_nthD)
    with that show ?thesis by (simp add: raised_def xs_def)
  qed
  with eq len total show ?thesis by simp
qed

lemma declared_minimum_sum:
  "declared_minimum nodes dss =
     sum_list (map get_minimum_memory nodes) + sum_list (map min_memory dss)"
  by (simp add: declared_minimum_def memory_consumers_def node_consumer_def
        datastructure_consumer_def comp_def)

lemma map2_available:
  "length amounts = length nodes \<Longrightarrow>
   map get_available_memory (map2 set_available_memory amounts nodes) = amounts"
  by (induction amounts nodes rule: list_induct2)
     (simp_all add: set_available_memory_def get_available_memory_def)

lemma assign_two_nodes_8:
  "assign_memory 8 (memory_consumers [light_node, heavy_node] []) = Inr [2, 6]"
  by code_simp

lemma assign_two_nodes_100:
  "assign_memory 100 (memory_consumers [light_node, heavy_node] []) = Inr [10, 10]"
  by code_simp

lemma assign_mixed_phase:
  "assign_memory 20 (memory_consumers [inverted_node, heavy_node] []) = Inr [5, 10]"
  by code_simp

text \<open>
  C1: for every phase and every budget \<open>M\<close>, if the declared minima (of the nodes and
  the datastructures) together exceed \<open>M\<close>, the assignment fails with
  \<open>insufficient_memory\<close>; otherwise it succeeds, every node is changed only in its
  available memory, which is at least the node's minimum and, for every node whose declared
  interval is not empty, at most its maximum, and the memory assigned to all nodes (and to
  the datastructures with them) is at most \<open>M\<close>.
\<close>

theorem assign_phase_memory_bounds:
  "(M < declared_minimum nodes dss \<longrightarrow>
            assign_phase_memory M nodes dss = Inl insufficient_memory)
     \<and> (declared_minimum nodes dss \<le> M \<longrightarrow>
          (\<exists>nodes' amounts. assign_phase_memory M nodes dss = Inr (nodes', amounts)
             \<and> length nodes' = length nodes
             \<and> (\<forall>i < length nodes.
                   get_minimum_memory (nodes ! i) \<le> get_available_memory (nodes' ! i)
                   \<and> (get_minimum_memory (nodes ! i) \<le> get_maximum_memory (nodes ! i) \<longrightarrow>
                        get_available_memory (nodes' ! i) \<le> get_maximum_memory (nodes ! i))
                   \<and> nodes' ! i = set_available_memory (get_available_memory (nodes' ! i)) (nodes ! i))
             \<and> sum_list (map get_available_memory nodes') \<le> M
             \<and> sum_list (map get_available_memory nodes') + sum_list amounts \<le> M))"
proof (intro conjI impI)
  assume "M < declared_minimum nodes dss"
  then show "assign_phase_memory M nodes dss = Inl insufficient_memory"
    by (simp add: assign_phase_memory_def declared_minimum_def assign_memory_insufficient)
next
  assume enough: "declared_minimum nodes dss \<le> M"
  define cs where "cs = memory_consumers nodes dss"
  from enough have "sum_list (map consumer_min cs) \<le> M"
    by (simp add: declared_minimum_def cs_def)
  from assign_memory_sufficient [OF this] obtain amounts where
    eq: "assign_memory M cs = Inr amounts" and
    len: "length amounts = length cs" and
    total: "sum_list amounts \<le> M" and
    bounds: "\<forall>i < length cs. consumer_min (cs ! i) \<le> amounts ! i
       \<and> (consumer_min (cs ! i) \<le> consumer_max (cs ! i) \<longrightarrow> amounts ! i \<le> consumer_max (cs ! i))"
    by blast
  define given where "given = take (length nodes) amounts"
  define nodes' where "nodes' = map2 set_available_memory given nodes"
  have lcs: "length cs = length nodes + length dss"
    by (simp add: cs_def memory_consumers_def)
  with len have lgiven: "length given = length nodes" by (simp add: given_def)
  have res: "assign_phase_memory M nodes dss = Inr (nodes', drop (length nodes) amounts)"
    using eq by (simp add: assign_phase_memory_def cs_def nodes'_def given_def)
  have avail: "map get_available_memory nodes' = given"
    unfolding nodes'_def using lgiven by (rule map2_available)
  have split: "sum_list given + sum_list (drop (length nodes) amounts) = sum_list amounts"
    unfolding given_def by (simp add: sum_list_append [symmetric])
  have each: "get_minimum_memory (nodes ! i) \<le> get_available_memory (nodes' ! i)
       \<and> (get_minimum_memory (nodes ! i) \<le> get_maximum_memory (nodes ! i) \<longrightarrow>
            get_available_memory (nodes' ! i) \<le> get_maximum_memory (nodes ! i))
       \<and> nodes' ! i = set_available_memory (get_available_memory (nodes' ! i)) (nodes ! i)"
    if i: "i < length nodes" for i
  proof -
    from i lgiven have n': "nodes' ! i = set_available_memory (given ! i) (nodes ! i)"
      by (simp add: nodes'_def)
    then have a: "get_available_memory (nodes' ! i) = given ! i"
      by (simp add: set_available_memory_def get_available_memory_def)
    from i have g: "given ! i = amounts ! i" by (simp add: given_def)
    from i have c: "cs ! i = node_consumer (nodes ! i)"
      by (simp add: cs_def memory_consumers_def nth_append)
    from i lcs bounds have "consumer_min (cs ! i) \<le> amounts ! i
       \<and> (consumer_min (cs ! i) \<le> consumer_max (cs ! i) \<longrightarrow> amounts ! i \<le> consumer_max (cs ! i))"
      by simp
    then show ?thesis using n' a g c by (simp add: node_consumer_def)
  qed
  from lgiven have "length nodes' = length nodes" by (simp add: nodes'_def)
  with res each avail split total
  show "\<exists>nodes' amounts. assign_phase_memory M nodes dss = Inr (nodes', amounts)
             \<and> length nodes' = length nodes
             \<and> (\<forall>i < length nodes.
                   get_minimum_memory (nodes ! i) \<le> get_available_memory (nodes' ! i)
                   \<and> (get_minimum_memory (nodes ! i) \<le> get_maximum_memory (nodes ! i) \<longrightarrow>
                        get_available_memory (nodes' ! i) \<le> get_maximum_memory (nodes ! i))
                   \<and> nodes' ! i = set_available_memory (get_available_memory (nodes' ! i)) (nodes ! i))
             \<and> sum_list (map get_available_memory nodes') \<le> M
             \<and> sum_list (map get_available_memory nodes') + sum_list amounts \<le> M"
    by (intro exI [of _ nodes'] exI [of _ "drop (length nodes) amounts"]) simp
qed

theorem assign_phase_memory_bounds_witness:
  "declared_minimum [light_node, heavy_node] [] = 2
   \<and> assign_phase_memory 1 [light_node, heavy_node] [] = Inl insufficient_memory
   \<and> assign_phase_memory 8 [light_node, heavy_node] [] =
        Inr ([set_available_memory 2 light_node, set_available_memory 6 heavy_node], [])
   \<and> assign_phase_memory 100 [light_node, heavy_node] [] =
        Inr ([set_available_memory 10 light_node, set_available_memory 10 heavy_node], [])
   \<and> get_minimum_memory heavy_node \<le> get_maximum_memory heavy_node
   \<and> assign_phase_memory 20 [inverted_node, heavy_node] [] =
        Inr ([set_available_memory 5 inverted_node, set_available_memory 10 heavy_node], [])
   \<and> get_available_memory (set_available_memory 10 heavy_node) \<le> get_maximum_memory heavy_node"
proof -
  have low: "declared_minimum [light_node, heavy_node] [] = 2"
    by (simp add: declared_minimum_sum light_node_def heavy_node_def sample_node_def
          sample_parameters_def get_minimum_memory_def)
  from assign_phase_memory_bounds [of 1 "[light_node, heavy_node]" "[]"] low
  have fail: "assign_phase_memory 1 [light_node, heavy_node] [] = Inl insufficient_memory"
    by simp
  have mixed: "assign_phase_memory 20 [inverted_node, heavy_node] [] =
        Inr ([set_available_memory 5 inverted_node, set_available_memory 10 heavy_node], [])"
    by (simp add: assign_phase_memory_def assign_mixed_phase)
  have wf: "get_minimum_memory heavy_node \<le> get_maximum_memory heavy_node"
    by (simp add: heavy_node_def sample_node_def sample_parameters_def
          get_minimum_memory_def get_maximum_memory_def)
  from assign_phase_memory_bounds [of 20 "[inverted_node, heavy_node]" "[]"] mixed wf
  have "get_available_memory (set_available_memory 10 heavy_node) \<le> get_maximum_memory heavy_node"
    by (auto simp: declared_minimum_sum dest!: spec [of _ 1])
  with low fail mixed wf show ?thesis
    by (simp add: assign_phase_memory_def assign_two_nodes_8 assign_two_nodes_100)
qed

end
